theory Spec2Isabelle
  imports Main
begin

section \<open>Data model (models.py, schemas.py)\<close>

text \<open>
  The three tables of \<^verbatim>\<open>models.py\<close>. A table is the list of its rows. The surrogate
  keys \<^verbatim>\<open>game_sessions.id\<close> and \<^verbatim>\<open>leaderboard.id\<close> and the column
  \<^verbatim>\<open>users.join_date\<close> are never read by \<^verbatim>\<open>routes.py\<close> and are left out.
  The column \<^verbatim>\<open>leaderboard.rank\<close> is nullable, hence an option.
  Time is a count of seconds.
\<close>

record user =
  u_id :: int
  u_username :: string

record game_session =
  gs_user_id :: int
  gs_score :: int
  gs_game_mode :: string
  gs_timestamp :: nat

record lb_entry =
  lb_user_id :: int
  lb_total_score :: int
  lb_rank :: "int option"

record database =
  users :: "user list"
  game_sessions :: "game_session list"
  leaderboard :: "lb_entry list"

text \<open>
  The request and response bodies of \<^verbatim>\<open>schemas.py\<close>. The framework checks
  \<^verbatim>\<open>user_id > 0\<close> and \<^verbatim>\<open>score > 0\<close> before it calls the handler; the handlers
  below are modelled for every body, checked or not.
\<close>

record score_submission =
  sub_user_id :: int
  sub_score :: int
  sub_game_mode :: string

record submit_response =
  sr_message :: string
  sr_user_id :: int
  sr_new_total_score :: int
  sr_new_rank :: "int option"

record leaderboard_entry =
  le_rank :: int
  le_user_id :: int
  le_username :: string
  le_total_score :: int

record leaderboard_response =
  lr_leaderboard :: "leaderboard_entry list"
  lr_updated_at :: nat

record player_rank_response =
  pr_user_id :: int
  pr_username :: string
  pr_total_score :: int
  pr_rank :: int

section \<open>Exceptions, the environment of a call, the state of the service\<close>

text \<open>
  \<^verbatim>\<open>HTTPException(status_code, detail)\<close> is what a handler answers with;
  \<open>OtherException\<close> stands for every other Python exception: what a statement of
  the database driver raises (lost connection, value out of range for an
  \<^verbatim>\<open>Integer\<close> column) and what a response model raises on a payload of the
  wrong shape.
\<close>

datatype exn = HTTPException nat string | OtherException

text \<open>The statements \<^verbatim>\<open>routes.py\<close> sends to the database, in the order of the source.\<close>

datatype stmt =
    SelectUser | InsertSession | UpsertEntry | SelectTotal | CountRank | UpdateRank
  | Commit | SelectTop10 | SelectPlayerRank

text \<open>
  What a call finds outside the program: the clock, which database statements fail for
  a reason of the backend, and whether the Redis server answers.
\<close>

record env =
  now :: nat
  db_fails :: "stmt \<Rightarrow> bool"
  redis_reachable :: bool

text \<open>
  A cached value is the JSON of one of the two read responses
  (\<^verbatim>\<open>json.dumps(response.model_dump(), default=str)\<close>, read back by
  \<^verbatim>\<open>json.loads\<close>); the round trip through JSON is taken as the identity.
\<close>

datatype cache_value = TopJson leaderboard_response | RankJson player_rank_response

text \<open>The effects whose order matters, recorded as they are issued.\<close>

datatype event = EvCommit | EvRollback | EvCacheDelete "string list"

text \<open>
  The state that outlives a request: the committed database, the module global
  \<^verbatim>\<open>_redis_client\<close> (\<open>True\<close> when it is not \<^verbatim>\<open>None\<close>), the content of the Redis
  server (value and expiry time per key), and the record of effects.
\<close>

record system =
  db :: database
  redis_client :: bool
  redis_data :: "string \<rightharpoonup> (cache_value \<times> nat)"
  trace :: "event list"

definition and_then :: "exn + 'a \<Rightarrow> ('a \<Rightarrow> exn + 'b) \<Rightarrow> exn + 'b" where
  "and_then m f = (case m of Inl e \<Rightarrow> Inl e | Inr x \<Rightarrow> f x)"

section \<open>Formatting integers (the f-strings of routes.py)\<close>

definition digit_char :: "nat \<Rightarrow> char" where
  "digit_char d = ''0123456789'' ! d"

function show_nat :: "nat \<Rightarrow> string" where
  "show_nat n = (if n < 10 then [digit_char n] else show_nat (n div 10) @ [digit_char (n mod 10)])"
  by pat_completeness auto
termination
  by (relation "measure (\<lambda>n. n)") auto

declare show_nat.simps [simp del]

definition show_int :: "int \<Rightarrow> string" where
  "show_int i = (if i < 0 then CHR ''-'' # show_nat (nat (- i)) else show_nat (nat i))"

definition top10_key :: string where
  "top10_key = ''leaderboard:top10''"

definition rank_key :: "int \<Rightarrow> string" where
  "rank_key uid = ''rank:'' @ show_int uid"

section \<open>The Redis helpers (routes.py, get_redis to cache_invalidate)\<close>

text \<open>
  \<^verbatim>\<open>get_redis\<close>: an existing client is returned as it is; otherwise a client is made
  and pinged, and kept only when the ping succeeds. The result says whether a client
  was returned.
\<close>

definition get_redis :: "env \<Rightarrow> system \<Rightarrow> bool \<times> system" where
  "get_redis e s =
     (if redis_client s then (True, s)
      else if redis_reachable e then (True, s\<lparr>redis_client := True\<rparr>)
      else (False, s\<lparr>redis_client := False\<rparr>))"

text \<open>
  \<^verbatim>\<open>cache_get\<close>: no client, or a command that raises because the server does not
  answer, both give \<^verbatim>\<open>None\<close>. Redis does not return a key past its expiry.
\<close>

definition cache_get :: "env \<Rightarrow> string \<Rightarrow> system \<Rightarrow> cache_value option \<times> system" where
  "cache_get e key s =
     (case get_redis e s of
        (False, s1) \<Rightarrow> (None, s1)
      | (True, s1) \<Rightarrow>
          if \<not> redis_reachable e then (None, s1)
          else (case redis_data s1 key of
                  None \<Rightarrow> (None, s1)
                | Some (v, expiry) \<Rightarrow> if now e < expiry then (Some v, s1) else (None, s1)))"

text \<open>\<^verbatim>\<open>cache_set\<close>: \<^verbatim>\<open>setex(key, ttl, ...)\<close>, the failure swallowed.\<close>

definition cache_set :: "env \<Rightarrow> string \<Rightarrow> cache_value \<Rightarrow> nat \<Rightarrow> system \<Rightarrow> system" where
  "cache_set e key v ttl s =
     (case get_redis e s of
        (False, s1) \<Rightarrow> s1
      | (True, s1) \<Rightarrow>
          if \<not> redis_reachable e then s1
          else s1\<lparr>redis_data := (redis_data s1)(key \<mapsto> (v, now e + ttl))\<rparr>)"

text \<open>
  \<^verbatim>\<open>cache_invalidate\<close>: \<^verbatim>\<open>delete(*keys)\<close>, the failure swallowed. The event is
  recorded when the command reaches the server.
\<close>

definition cache_invalidate :: "env \<Rightarrow> string list \<Rightarrow> system \<Rightarrow> system" where
  "cache_invalidate e keys s =
     (case get_redis e s of
        (False, s1) \<Rightarrow> s1
      | (True, s1) \<Rightarrow>
          if \<not> redis_reachable e then s1
          else s1\<lparr>redis_data := (\<lambda>k. if k \<in> set keys then None else redis_data s1 k),
                  trace := trace s1 @ [EvCacheDelete keys]\<rparr>)"

section \<open>The SQL statements of routes.py\<close>

text \<open>
  A statement raises when the backend fails it; \<^verbatim>\<open>Integer\<close> columns are 32-bit
  and PostgreSQL raises on a value out of range instead of wrapping.
\<close>

definition int4_ok :: "int \<Rightarrow> bool" where
  "int4_ok v = (- 2147483648 \<le> v \<and> v \<le> 2147483647)"

definition execute :: "env \<Rightarrow> stmt \<Rightarrow> exn + 'a \<Rightarrow> exn + 'a" where
  "execute e st r = (if db_fails e st then Inl OtherException else r)"

text \<open>\<^verbatim>\<open>SELECT id, username FROM users WHERE id = :uid\<close>, \<^verbatim>\<open>fetchone()\<close>.\<close>

definition select_user :: "env \<Rightarrow> database \<Rightarrow> int \<Rightarrow> exn + user option" where
  "select_user e d uid = execute e SelectUser (Inr (find (\<lambda>u. u_id u = uid) (users d)))"

text \<open>
  \<^verbatim>\<open>INSERT INTO game_sessions (user_id, score, game_mode) VALUES (:uid, :score, :mode)\<close>;
  the timestamp is the column's server default \<^verbatim>\<open>now()\<close>. The handler does
  not look at the length of the game mode. What PostgreSQL does with a value longer
  than the \<^verbatim>\<open>String(50)\<close> column (it cuts trailing spaces and refuses anything
  else) is left to the environment: a refusal is a failure of this statement, and the
  stored mode is never read by a handler.
\<close>

definition insert_game_session :: "env \<Rightarrow> database \<Rightarrow> score_submission \<Rightarrow> exn + database" where
  "insert_game_session e d p =
     execute e InsertSession
       (if \<not> int4_ok (sub_score p) then Inl OtherException
        else Inr (d\<lparr>game_sessions := game_sessions d @
               [\<lparr>gs_user_id = sub_user_id p, gs_score = sub_score p,
                 gs_game_mode = sub_game_mode p, gs_timestamp = now e\<rparr>]\<rparr>))"

text \<open>
  \<^verbatim>\<open>INSERT INTO leaderboard (user_id, total_score, rank) VALUES (:uid, :score, 0)
  ON CONFLICT (user_id) DO UPDATE SET total_score = leaderboard.total_score + :score\<close>.
  The conflict target is the unique index on \<^verbatim>\<open>user_id\<close> that \<^verbatim>\<open>app.py\<close>
  creates, so at most one row is in conflict; the update is written for every row of
  the player.
\<close>

definition upsert_leaderboard :: "env \<Rightarrow> database \<Rightarrow> int \<Rightarrow> int \<Rightarrow> exn + database" where
  "upsert_leaderboard e d uid sc =
     execute e UpsertEntry
       (if list_ex (\<lambda>l. lb_user_id l = uid) (leaderboard d) then
          (if list_ex (\<lambda>l. lb_user_id l = uid \<and> \<not> int4_ok (lb_total_score l + sc)) (leaderboard d)
           then Inl OtherException
           else Inr (d\<lparr>leaderboard :=
                  map (\<lambda>l. if lb_user_id l = uid
                           then l\<lparr>lb_total_score := lb_total_score l + sc\<rparr> else l)
                      (leaderboard d)\<rparr>))
        else if \<not> int4_ok sc then Inl OtherException
        else Inr (d\<lparr>leaderboard := leaderboard d @
               [\<lparr>lb_user_id = uid, lb_total_score = sc, lb_rank = Some 0\<rparr>]\<rparr>))"

text \<open>\<^verbatim>\<open>SELECT total_score FROM leaderboard WHERE user_id = :uid\<close>, \<^verbatim>\<open>fetchone()\<close>.\<close>

definition select_total :: "env \<Rightarrow> database \<Rightarrow> int \<Rightarrow> exn + int option" where
  "select_total e d uid =
     execute e SelectTotal
       (Inr (map_option lb_total_score (find (\<lambda>l. lb_user_id l = uid) (leaderboard d))))"

text \<open>\<^verbatim>\<open>SELECT COUNT(*) + 1 FROM leaderboard WHERE total_score > :total\<close>.\<close>

definition count_rank :: "database \<Rightarrow> int \<Rightarrow> int" where
  "count_rank d tot = int (length (filter (\<lambda>l. lb_total_score l > tot) (leaderboard d))) + 1"

definition select_rank :: "env \<Rightarrow> database \<Rightarrow> int \<Rightarrow> exn + int option" where
  "select_rank e d tot = execute e CountRank (Inr (Some (count_rank d tot)))"

text \<open>\<^verbatim>\<open>UPDATE leaderboard SET rank = :rank WHERE user_id = :uid\<close>.\<close>

definition update_rank :: "env \<Rightarrow> database \<Rightarrow> int \<Rightarrow> int \<Rightarrow> exn + database" where
  "update_rank e d uid r =
     execute e UpdateRank
       (if list_ex (\<lambda>l. lb_user_id l = uid) (leaderboard d) \<and> \<not> int4_ok r then Inl OtherException
        else Inr (d\<lparr>leaderboard :=
               map (\<lambda>l. if lb_user_id l = uid then l\<lparr>lb_rank := Some r\<rparr> else l)
                   (leaderboard d)\<rparr>))"

text \<open>\<^verbatim>\<open>db.commit()\<close> makes the pending rows the committed database.\<close>

definition commit :: "env \<Rightarrow> database \<Rightarrow> system \<Rightarrow> exn + system" where
  "commit e pending s =
     execute e Commit (Inr (s\<lparr>db := pending, trace := trace s @ [EvCommit]\<rparr>))"

text \<open>\<^verbatim>\<open>db.rollback()\<close> drops the pending rows; the committed database stays.\<close>

definition rollback :: "system \<Rightarrow> system" where
  "rollback s = s\<lparr>trace := trace s @ [EvRollback]\<rparr>"

section \<open>submit_score\<close>

text \<open>
  The statements of the \<^verbatim>\<open>try\<close> block up to the update of the rank, run on the
  pending copy of the database.
\<close>

definition submit_statements ::
  "env \<Rightarrow> score_submission \<Rightarrow> database \<Rightarrow> exn + (database \<times> int \<times> int)" where
  "submit_statements e p d =
     and_then (select_user e d (sub_user_id p)) (\<lambda>usr.
       if usr = None
       then Inl (HTTPException 404 (''User '' @ show_int (sub_user_id p) @ '' not found''))
       else
     and_then (insert_game_session e d p) (\<lambda>d1.
     and_then (upsert_leaderboard e d1 (sub_user_id p) (sub_score p)) (\<lambda>d2.
     and_then (select_total e d2 (sub_user_id p)) (\<lambda>row.
       let new_total = (case row of Some t \<Rightarrow> t | None \<Rightarrow> sub_score p) in
     and_then (select_rank e d2 new_total) (\<lambda>rank_row.
       let new_rank = (case rank_row of Some r \<Rightarrow> r | None \<Rightarrow> 1) in
     and_then (update_rank e d2 (sub_user_id p) new_rank) (\<lambda>d3.
       Inr (d3, new_total, new_rank)))))))"

definition submit_try :: "env \<Rightarrow> score_submission \<Rightarrow> system \<Rightarrow> exn + (submit_response \<times> system)" where
  "submit_try e p s =
     and_then (submit_statements e p (db s)) (\<lambda>(d3, new_total, new_rank).
     and_then (commit e d3 s) (\<lambda>s1.
       let s2 = cache_invalidate e [top10_key, rank_key (sub_user_id p)] s1 in
       Inr (\<lparr>sr_message = ''Score submitted successfully'', sr_user_id = sub_user_id p,
             sr_new_total_score = new_total, sr_new_rank = Some new_rank\<rparr>, s2)))"

text \<open>
  The handler: an \<^verbatim>\<open>HTTPException\<close> is raised again as it is, any other exception
  rolls back and becomes the status 500 with a fixed text.
\<close>

definition submit_score :: "env \<Rightarrow> score_submission \<Rightarrow> system \<Rightarrow> (exn + submit_response) \<times> system" where
  "submit_score e p s =
     (case submit_try e p s of
        Inr (resp, s2) \<Rightarrow> (Inr resp, s2)
      | Inl (HTTPException code detail) \<Rightarrow> (Inl (HTTPException code detail), s)
      | Inl OtherException \<Rightarrow> (Inl (HTTPException 500 ''Internal server error''), rollback s))"

section \<open>get_leaderboard\<close>

text \<open>
  \<^verbatim>\<open>FROM leaderboard l JOIN users u ON u.id = l.user_id\<close>: the inner join, row by row.
\<close>

definition lb_join_users :: "database \<Rightarrow> (lb_entry \<times> user) list" where
  "lb_join_users d =
     concat (map (\<lambda>l. map (\<lambda>u. (l, u)) (filter (\<lambda>u. u_id u = lb_user_id l) (users d)))
                 (leaderboard d))"

text \<open>
  \<^verbatim>\<open>SELECT l.rank, l.user_id, u.username, l.total_score ... ORDER BY l.total_score DESC
  LIMIT 10\<close>. SQL leaves the order among equal totals open; the stable sort keeps the
  order of the join there.
\<close>

definition select_top10 :: "env \<Rightarrow> database \<Rightarrow> exn + (int option \<times> int \<times> string \<times> int) list" where
  "select_top10 e d =
     execute e SelectTop10
       (Inr (take 10
          (map (\<lambda>(l, u). (lb_rank l, lb_user_id l, u_username u, lb_total_score l))
               (sort_key (\<lambda>(l, u). - lb_total_score l) (lb_join_users d)))))"

text \<open>
  \<^verbatim>\<open>LeaderboardEntry(rank=idx + 1, user_id=r[1], username=r[2], total_score=r[3])
  for idx, r in enumerate(rows)\<close>.
\<close>

definition top_entries :: "(int option \<times> int \<times> string \<times> int) list \<Rightarrow> leaderboard_entry list" where
  "top_entries rows =
     map (\<lambda>(idx, r). case r of (rk, uid, name, tot) \<Rightarrow>
            \<lparr>le_rank = int idx + 1, le_user_id = uid, le_username = name, le_total_score = tot\<rparr>)
         (enumerate 0 rows)"

text \<open>
  The handler. A cached value is returned as it is; an exception of the query is not
  caught here and leaves the handler.
\<close>

definition get_leaderboard :: "env \<Rightarrow> system \<Rightarrow> (exn + leaderboard_response) \<times> system" where
  "get_leaderboard e s =
     (case cache_get e top10_key s of
        (Some (TopJson resp), s1) \<Rightarrow> (Inr resp, s1)
      | (Some (RankJson x), s1) \<Rightarrow> (Inl OtherException, s1)
      | (None, s1) \<Rightarrow>
          (case select_top10 e (db s1) of
             Inl ex \<Rightarrow> (Inl ex, s1)
           | Inr rows \<Rightarrow>
               let response = \<lparr>lr_leaderboard = top_entries rows, lr_updated_at = now e\<rparr>;
                   s2 = cache_set e top10_key (TopJson response) 5 s1
               in (Inr response, s2)))"

section \<open>get_player_rank\<close>

text \<open>
  \<^verbatim>\<open>SELECT l.user_id, u.username, l.total_score,
  (SELECT COUNT(*) + 1 FROM leaderboard WHERE total_score > l.total_score) AS computed_rank
  FROM leaderboard l JOIN users u ON u.id = l.user_id WHERE l.user_id = :uid\<close>,
  \<^verbatim>\<open>fetchone()\<close>.
\<close>

definition select_player_rank :: "env \<Rightarrow> database \<Rightarrow> int \<Rightarrow> exn + (int \<times> string \<times> int \<times> int) option" where
  "select_player_rank e d uid =
     execute e SelectPlayerRank
       (Inr (map_option
               (\<lambda>(l, u). (lb_user_id l, u_username u, lb_total_score l,
                          count_rank d (lb_total_score l)))
               (find (\<lambda>(l, u). lb_user_id l = uid) (lb_join_users d))))"

definition get_player_rank :: "env \<Rightarrow> int \<Rightarrow> system \<Rightarrow> (exn + player_rank_response) \<times> system" where
  "get_player_rank e uid s =
     (let cache_key = rank_key uid in
      case cache_get e cache_key s of
        (Some (RankJson resp), s1) \<Rightarrow> (Inr resp, s1)
      | (Some (TopJson x), s1) \<Rightarrow> (Inl OtherException, s1)
      | (None, s1) \<Rightarrow>
          (case select_player_rank e (db s1) uid of
             Inl ex \<Rightarrow> (Inl ex, s1)
           | Inr None \<Rightarrow>
               (Inl (HTTPException 404 (''No leaderboard entry for user '' @ show_int uid)), s1)
           | Inr (Some (r0, r1, r2, r3)) \<Rightarrow>
               let response = \<lparr>pr_user_id = r0, pr_username = r1, pr_total_score = r2,
                               pr_rank = r3\<rparr>;
                   s2 = cache_set e cache_key (RankJson response) 5 s1
               in (Inr response, s2)))"

section \<open>What the properties are stated with\<close>

text \<open>
  A player's aggregate entry, the player's session records, their sum, and the agreement
  of the two: a player without an entry has no session record, a player with one has the
  sum of the scores as total.
\<close>

definition entry_of :: "database \<Rightarrow> int \<Rightarrow> lb_entry option" where
  "entry_of d uid = find (\<lambda>l. lb_user_id l = uid) (leaderboard d)"

definition sessions_of :: "database \<Rightarrow> int \<Rightarrow> game_session list" where
  "sessions_of d uid = filter (\<lambda>g. gs_user_id g = uid) (game_sessions d)"

definition ledger_sum :: "database \<Rightarrow> int \<Rightarrow> int" where
  "ledger_sum d uid = sum_list (map gs_score (sessions_of d uid))"

definition ledger_consistent :: "database \<Rightarrow> int \<Rightarrow> bool" where
  "ledger_consistent d uid =
     (case entry_of d uid of
        None \<Rightarrow> sessions_of d uid = []
      | Some l \<Rightarrow> lb_total_score l = ledger_sum d uid)"




text \<open>
  What every list computed by \<^verbatim>\<open>get_leaderboard\<close> satisfies: totals in
  non-increasing order, positions 1, 2, ... in list order, at most ten entries. The
  cache is in order when the key \<^verbatim>\<open>leaderboard:top10\<close> holds nothing or such a list.
\<close>

definition snapshot_ok :: "leaderboard_response \<Rightarrow> bool" where
  "snapshot_ok r =
     (sorted_wrt (\<ge>) (map le_total_score (lr_leaderboard r))
      \<and> map le_rank (lr_leaderboard r) = map int [1..<Suc (length (lr_leaderboard r))]
      \<and> length (lr_leaderboard r) \<le> 10)"

definition top10_cache_ok :: "system \<Rightarrow> bool" where
  "top10_cache_ok s =
     (case redis_data s top10_key of
        None \<Rightarrow> True
      | Some (TopJson r, expiry) \<Rightarrow> snapshot_ok r
      | Some (RankJson r, expiry) \<Rightarrow> False)"

section \<open>A small leaderboard to run the handlers on\<close>

text \<open>
  Two players; the first has played one session of 500 points. No statement fails and
  Redis answers, unless the call says otherwise.
\<close>

definition ex_env :: "nat \<Rightarrow> env" where
  "ex_env t = \<lparr>now = t, db_fails = (\<lambda>st. False), redis_reachable = True\<rparr>"

definition ex_db :: database where
  "ex_db = \<lparr>users = [\<lparr>u_id = 1, u_username = ''ann''\<rparr>, \<lparr>u_id = 2, u_username = ''bob''\<rparr>],
            game_sessions = [\<lparr>gs_user_id = 1, gs_score = 500, gs_game_mode = ''solo'',
                              gs_timestamp = 0\<rparr>],
            leaderboard = [\<lparr>lb_user_id = 1, lb_total_score = 500, lb_rank = Some 1\<rparr>]\<rparr>"

definition ex_sys :: system where
  "ex_sys = \<lparr>db = ex_db, redis_client = False, redis_data = Map.empty, trace = []\<rparr>"

definition ex_sub :: "int \<Rightarrow> int \<Rightarrow> score_submission" where
  "ex_sub uid sc = \<lparr>sub_user_id = uid, sub_score = sc, sub_game_mode = ''solo''\<rparr>"

text \<open>The same calls with a commit that the database refuses.\<close>

definition ex_env_commit_fails :: env where
  "ex_env_commit_fails = \<lparr>now = 10, db_fails = (\<lambda>st. st = Commit), redis_reachable = True\<rparr>"

text \<open>The state after both read handlers have filled the cache at second 9.\<close>

definition ex_sys_warm :: system where
  "ex_sys_warm = snd (get_player_rank (ex_env 9) 1 (snd (get_leaderboard (ex_env 9) ex_sys)))"

text \<open>The same clock and database with a Redis server that does not answer.\<close>

definition ex_env_redis_down :: "nat \<Rightarrow> env" where
  "ex_env_redis_down t = \<lparr>now = t, db_fails = (\<lambda>st. False), redis_reachable = False\<rparr>"





section \<open>Lists and the exception plumbing\<close>

lemma find_map_same:
  "(\<And>x. P (f x) = P x) \<Longrightarrow> find P (map f xs) = map_option f (find P xs)"
  by (induction xs) auto

lemma find_append_miss: "find P xs = None \<Longrightarrow> find P (xs @ ys) = find P ys"
  by (induction xs) (auto split: if_splits)

lemma list_ex_find: "list_ex P xs \<longleftrightarrow> find P xs \<noteq> None"
  by (induction xs) auto

lemma and_then_Inr:
  "and_then m f = Inr y \<longleftrightarrow> (\<exists>x. m = Inr x \<and> f x = Inr y)"
  by (cases m) (auto simp: and_then_def)

lemma execute_Inr: "execute e st r = Inr y \<longleftrightarrow> (\<not> db_fails e st \<and> r = Inr y)"
  by (auto simp: execute_def)

lemma submit_statements_Inr:
  assumes "submit_statements e p d = Inr (d3, nt, nr)"
  shows "find (\<lambda>u. u_id u = sub_user_id p) (users d) \<noteq> None"
    and "users d3 = users d"
    and "game_sessions d3 = game_sessions d @
           [\<lparr>gs_user_id = sub_user_id p, gs_score = sub_score p,
             gs_game_mode = sub_game_mode p, gs_timestamp = now e\<rparr>]"
    and "leaderboard d3 =
           map (\<lambda>l. if lb_user_id l = sub_user_id p then l\<lparr>lb_rank := Some nr\<rparr> else l)
             (if list_ex (\<lambda>l. lb_user_id l = sub_user_id p) (leaderboard d)
              then map (\<lambda>l. if lb_user_id l = sub_user_id p
                           then l\<lparr>lb_total_score := lb_total_score l + sub_score p\<rparr> else l)
                       (leaderboard d)
              else leaderboard d @
                     [\<lparr>lb_user_id = sub_user_id p, lb_total_score = sub_score p, lb_rank = Some 0\<rparr>])"
  using assms
  by (auto simp: submit_statements_def and_then_Inr select_user_def insert_game_session_def
    upsert_leaderboard_def select_total_def select_rank_def update_rank_def execute_Inr Let_def
     split: if_splits)

lemma find_holds: "find P xs = Some x \<Longrightarrow> P x"
  by (induction xs) (auto split: if_splits)

lemma submit_statements_steps:
  assumes "submit_statements e p d = Inr (d3, nt, nr)"
  shows "\<exists>usr d1 d2 row rr.
           select_user e d (sub_user_id p) = Inr (Some usr) \<and>
           insert_game_session e d p = Inr d1 \<and>
           upsert_leaderboard e d1 (sub_user_id p) (sub_score p) = Inr d2 \<and>
           select_total e d2 (sub_user_id p) = Inr row \<and>
           nt = (case row of Some t \<Rightarrow> t | None \<Rightarrow> sub_score p) \<and>
           select_rank e d2 nt = Inr rr \<and>
           nr = (case rr of Some r \<Rightarrow> r | None \<Rightarrow> 1) \<and>
           update_rank e d2 (sub_user_id p) nr = Inr d3"
  using assms
  by (auto simp: submit_statements_def and_then_Inr Let_def split: if_splits)

lemma upsert_leaderboard_Inr:
  assumes "upsert_leaderboard e d uid sc = Inr d2"
  shows "d2 = d\<lparr>leaderboard :=
           (if list_ex (\<lambda>l. lb_user_id l = uid) (leaderboard d)
            then map (\<lambda>l. if lb_user_id l = uid
                         then l\<lparr>lb_total_score := lb_total_score l + sc\<rparr> else l)
                     (leaderboard d)
            else leaderboard d @ [\<lparr>lb_user_id = uid, lb_total_score = sc, lb_rank = Some 0\<rparr>])\<rparr>"
  using assms by (auto simp: upsert_leaderboard_def execute_Inr split: if_splits)

lemma select_total_after_upsert:
  assumes "upsert_leaderboard e d uid sc = Inr d2"
  shows "map_option lb_total_score (find (\<lambda>l. lb_user_id l = uid) (leaderboard d2)) =
         Some (case find (\<lambda>l. lb_user_id l = uid) (leaderboard d) of
                 None \<Rightarrow> sc | Some l \<Rightarrow> lb_total_score l + sc)"
proof (cases "find (\<lambda>l. lb_user_id l = uid) (leaderboard d)")
  case None
  then show ?thesis
    using upsert_leaderboard_Inr [OF assms] by (simp add: list_ex_find find_append_miss)
next
  case (Some l)
  then show ?thesis
    using upsert_leaderboard_Inr [OF assms] find_holds [OF Some]
    by (simp add: list_ex_find find_map_same)
qed

lemma submit_statements_total:
  assumes "submit_statements e p d = Inr (d3, nt, nr)"
  shows "nt = (case find (\<lambda>l. lb_user_id l = sub_user_id p) (leaderboard d) of
                 None \<Rightarrow> sub_score p | Some l \<Rightarrow> lb_total_score l + sub_score p)"
proof -
  from submit_statements_steps [OF assms] obtain d1 d2 row where
    ins: "insert_game_session e d p = Inr d1" and
    ups: "upsert_leaderboard e d1 (sub_user_id p) (sub_score p) = Inr d2" and
    sel: "select_total e d2 (sub_user_id p) = Inr row" and
    nt: "nt = (case row of Some t \<Rightarrow> t | None \<Rightarrow> sub_score p)"
    by blast
  from ins have lb1: "leaderboard d1 = leaderboard d"
    by (auto simp: insert_game_session_def execute_Inr split: if_splits)
  from sel have "row = map_option lb_total_score (find (\<lambda>l. lb_user_id l = sub_user_id p) (leaderboard d2))"
    by (auto simp: select_total_def execute_Inr)
  with select_total_after_upsert [OF ups] nt lb1 show ?thesis
    by (auto split: option.splits)
qed

lemma submit_statements_rank:
  assumes "submit_statements e p d = Inr (d3, nt, nr)"
  shows "nr = count_rank d3 nt"
proof -
  from submit_statements_steps [OF assms] obtain d2 rr where
    cnt: "select_rank e d2 nt = Inr rr" and
    nr: "nr = (case rr of Some r \<Rightarrow> r | None \<Rightarrow> 1)" and
    upd: "update_rank e d2 (sub_user_id p) nr = Inr d3"
    by blast
  from cnt nr have "nr = count_rank d2 nt"
    by (auto simp: select_rank_def execute_Inr)
  moreover from upd have "leaderboard d3 =
      map (\<lambda>l. if lb_user_id l = sub_user_id p then l\<lparr>lb_rank := Some nr\<rparr> else l) (leaderboard d2)"
    by (auto simp: update_rank_def execute_Inr split: if_splits)
  then have "count_rank d3 nt = count_rank d2 nt"
    by (auto simp: count_rank_def comp_def intro!: arg_cong [where f = length] filter_cong)
  ultimately show ?thesis by simp
qed

lemma find_snoc_miss: "\<not> P y \<Longrightarrow> find P (xs @ [y]) = find P xs"
  by (induction xs) auto

lemma find_map_fixed:
  "(\<And>x. P (f x) = P x) \<Longrightarrow> (\<And>x. P x \<Longrightarrow> f x = x) \<Longrightarrow> find P (map f xs) = find P xs"
  by (induction xs) auto

lemma filter_map_fixed:
  "(\<And>x. P (f x) = P x) \<Longrightarrow> (\<And>x. P x \<Longrightarrow> f x = x) \<Longrightarrow> filter P (map f xs) = filter P xs"
  by (induction xs) auto

lemma db_cache_invalidate [simp]: "db (cache_invalidate e ks s) = db s"
  by (simp add: cache_invalidate_def get_redis_def)

lemma db_cache_set [simp]: "db (cache_set e k v t s) = db s"
  by (simp add: cache_set_def get_redis_def)

lemma db_cache_get [simp]: "db (snd (cache_get e k s)) = db s"
  by (simp add: cache_get_def get_redis_def split: option.splits)

lemma submit_try_Inr:
  "submit_try e p s = Inr (resp, s2) \<longleftrightarrow>
     (\<exists>d3 nt nr. submit_statements e p (db s) = Inr (d3, nt, nr) \<and> \<not> db_fails e Commit \<and>
        resp = \<lparr>sr_message = ''Score submitted successfully'', sr_user_id = sub_user_id p,
                 sr_new_total_score = nt, sr_new_rank = Some nr\<rparr> \<and>
        s2 = cache_invalidate e [top10_key, rank_key (sub_user_id p)]
               (s\<lparr>db := d3, trace := trace s @ [EvCommit]\<rparr>))"
  by (auto simp: submit_try_def and_then_Inr commit_def execute_Inr Let_def)

lemma submit_score_success:
  assumes "fst (submit_score e p s) = Inr resp"
  shows "\<exists>d3 nt nr. submit_statements e p (db s) = Inr (d3, nt, nr) \<and> \<not> db_fails e Commit \<and>
        resp = \<lparr>sr_message = ''Score submitted successfully'', sr_user_id = sub_user_id p,
                 sr_new_total_score = nt, sr_new_rank = Some nr\<rparr> \<and>
        snd (submit_score e p s) = cache_invalidate e [top10_key, rank_key (sub_user_id p)]
               (s\<lparr>db := d3, trace := trace s @ [EvCommit]\<rparr>)"
proof (cases "submit_try e p s")
  case (Inl x)
  with assms show ?thesis by (cases x) (simp_all add: submit_score_def)
next
  case (Inr r)
  obtain resp' s2 where r: "r = (resp', s2)" by (cases r)
  with Inr assms have "resp' = resp" by (simp add: submit_score_def)
  with Inr r show ?thesis
    using submit_try_Inr [of e p s resp s2] by (auto simp: submit_score_def)
qed

lemma submit_statements_entry:
  assumes "submit_statements e p d = Inr (d3, nt, nr)"
  shows "entry_of d3 (sub_user_id p) =
           Some \<lparr>lb_user_id = sub_user_id p, lb_total_score = nt, lb_rank = Some nr\<rparr>"
proof (cases "find (\<lambda>l. lb_user_id l = sub_user_id p) (leaderboard d)")
  case None
  then show ?thesis
    using submit_statements_Inr(4) [OF assms] submit_statements_total [OF assms]
    by (simp add: entry_of_def list_ex_find find_map_same find_append_miss)
next
  case (Some l)
  then show ?thesis
    using submit_statements_Inr(4) [OF assms] submit_statements_total [OF assms]
      find_holds [OF Some]
    by (simp add: entry_of_def list_ex_find find_map_same)
qed

lemma submit_statements_other_entry:
  assumes "submit_statements e p d = Inr (d3, nt, nr)" and "q \<noteq> sub_user_id p"
  shows "entry_of d3 q = entry_of d q"
  using submit_statements_Inr(4) [OF assms(1)] assms(2)
  by (simp add: entry_of_def find_map_fixed find_snoc_miss split: if_splits)

text \<open>
  Claim C1. A submission that commits leaves the submitter's entry with the total the
  response reports; that total is the score when the player had no entry and the old
  total plus the score otherwise; the sum of the player's session records grows by the
  same score; and the agreement of entry and ledger is kept for every player \<open>q\<close>.
\<close>

theorem submit_score_total_matches_ledger:
  assumes "fst (submit_score e p s) = Inr resp"
  shows "map_option lb_total_score (entry_of (db (snd (submit_score e p s))) (sub_user_id p))
           = Some (sr_new_total_score resp)
       \<and> sr_new_total_score resp =
           (case entry_of (db s) (sub_user_id p) of
              None \<Rightarrow> sub_score p
            | Some l \<Rightarrow> lb_total_score l + sub_score p)
       \<and> ledger_sum (db (snd (submit_score e p s))) (sub_user_id p)
           = ledger_sum (db s) (sub_user_id p) + sub_score p
       \<and> (ledger_consistent (db s) q \<longrightarrow> ledger_consistent (db (snd (submit_score e p s))) q)"
proof -
  from submit_score_success [OF assms] obtain d3 nt nr where
    st: "submit_statements e p (db s) = Inr (d3, nt, nr)" and
    resp: "sr_new_total_score resp = nt" and
    d': "db (snd (submit_score e p s)) = d3"
    by auto
  note tabs = submit_statements_Inr [OF st]
  have ent: "entry_of d3 (sub_user_id p) =
      Some \<lparr>lb_user_id = sub_user_id p, lb_total_score = nt, lb_rank = Some nr\<rparr>"
    by (rule submit_statements_entry [OF st])
  have tot: "nt = (case entry_of (db s) (sub_user_id p) of
              None \<Rightarrow> sub_score p | Some l \<Rightarrow> lb_total_score l + sub_score p)"
    using submit_statements_total [OF st] by (simp add: entry_of_def)
  have sess: "sessions_of d3 r = sessions_of (db s) r @
      (if r = sub_user_id p then [\<lparr>gs_user_id = sub_user_id p, gs_score = sub_score p,
             gs_game_mode = sub_game_mode p, gs_timestamp = now e\<rparr>] else [])" for r
    using tabs(3) by (simp add: sessions_of_def)
  have sum: "ledger_sum d3 (sub_user_id p) = ledger_sum (db s) (sub_user_id p) + sub_score p"
    by (simp add: ledger_sum_def sess)
  have pres: "ledger_consistent d3 q" if c: "ledger_consistent (db s) q"
  proof (cases "q = sub_user_id p")
    case True
    with c ent tot sum show ?thesis
      by (auto simp: ledger_consistent_def ledger_sum_def split: option.splits)
  next
    case False
    with c submit_statements_other_entry [OF st False] sess [of q] show ?thesis
      by (auto simp: ledger_consistent_def ledger_sum_def split: option.splits)
  qed
  from ent tot sum pres resp d' show ?thesis by simp
qed

theorem submit_score_total_matches_ledger_witness:
  "fst (submit_score (ex_env 10) (ex_sub 1 700) ex_sys) =
     Inr \<lparr>sr_message = ''Score submitted successfully'', sr_user_id = 1,
          sr_new_total_score = 1200, sr_new_rank = Some 1\<rparr>
   \<and> ledger_consistent (db ex_sys) 1
   \<and> ledger_consistent (db (snd (submit_score (ex_env 10) (ex_sub 1 700) ex_sys))) 1
   \<and> ledger_sum (db (snd (submit_score (ex_env 10) (ex_sub 1 700) ex_sys))) 1 = 1200
   \<and> map_option lb_total_score
        (entry_of (db (snd (submit_score (ex_env 10) (ex_sub 1 700) ex_sys))) 1) = Some 1200"
proof -
  have h: "fst (submit_score (ex_env 10) (ex_sub 1 700) ex_sys) =
     Inr \<lparr>sr_message = ''Score submitted successfully'', sr_user_id = 1,
          sr_new_total_score = 1200, sr_new_rank = Some 1\<rparr>"
    by code_simp
  have c: "ledger_consistent (db ex_sys) 1" by code_simp
  have v: "ledger_sum (db ex_sys) 1 + sub_score (ex_sub 1 700) = 1200" by code_simp
  have u: "sub_user_id (ex_sub 1 700) = 1" by code_simp
  from submit_score_total_matches_ledger [OF h, of 1] c v u h show ?thesis by simp
qed

text \<open>
  Claim C3. The rank a committed submission returns is one plus the number of entries,
  counted in the committed table (the submitter's own updated entry included), whose
  total is strictly greater than the new total; the same rank is stored on the
  submitter's entry; an entry tied with the new total has the same computed rank.
\<close>

theorem submit_score_rank_counts_greater:
  assumes "fst (submit_score e p s) = Inr resp"
  shows "sr_new_rank resp =
           Some (int (length (filter (\<lambda>l. lb_total_score l > sr_new_total_score resp)
                                (leaderboard (db (snd (submit_score e p s)))))) + 1)
       \<and> map_option lb_rank (entry_of (db (snd (submit_score e p s))) (sub_user_id p))
           = Some (sr_new_rank resp)
       \<and> map_option lb_total_score (entry_of (db (snd (submit_score e p s))) (sub_user_id p))
           = Some (sr_new_total_score resp)
       \<and> (\<forall>l \<in> set (leaderboard (db (snd (submit_score e p s)))).
             lb_total_score l = sr_new_total_score resp \<longrightarrow>
             Some (count_rank (db (snd (submit_score e p s))) (lb_total_score l)) = sr_new_rank resp)"
proof -
  from submit_score_success [OF assms] obtain d3 nt nr where
    st: "submit_statements e p (db s) = Inr (d3, nt, nr)" and
    resp: "sr_new_total_score resp = nt" "sr_new_rank resp = Some nr" and
    d': "db (snd (submit_score e p s)) = d3"
    by auto
  have "nr = count_rank d3 nt" by (rule submit_statements_rank [OF st])
  with submit_statements_entry [OF st] resp d' show ?thesis
    by (simp add: count_rank_def)
qed

theorem submit_score_rank_counts_greater_witness:
  "fst (submit_score (ex_env 10) (ex_sub 2 500) ex_sys) =
     Inr \<lparr>sr_message = ''Score submitted successfully'', sr_user_id = 2,
          sr_new_total_score = 500, sr_new_rank = Some 1\<rparr>
   \<and> \<lparr>lb_user_id = 1, lb_total_score = 500, lb_rank = Some 1\<rparr>
       \<in> set (leaderboard (db (snd (submit_score (ex_env 10) (ex_sub 2 500) ex_sys))))
   \<and> count_rank (db (snd (submit_score (ex_env 10) (ex_sub 2 500) ex_sys))) 500 = 1
   \<and> map_option lb_rank (entry_of (db (snd (submit_score (ex_env 10) (ex_sub 2 500) ex_sys))) 2)
       = Some (Some 1)"
proof -
  let ?D = "db (snd (submit_score (ex_env 10) (ex_sub 2 500) ex_sys))"
  let ?R = "\<lparr>sr_message = ''Score submitted successfully'', sr_user_id = 2,
          sr_new_total_score = 500, sr_new_rank = Some 1\<rparr>"
  let ?a = "\<lparr>lb_user_id = 1, lb_total_score = 500, lb_rank = Some 1\<rparr>"
  have h: "fst (submit_score (ex_env 10) (ex_sub 2 500) ex_sys) = Inr ?R"
    by code_simp
  have m: "?a \<in> set (leaderboard ?D)"
    by code_simp
  have u: "sub_user_id (ex_sub 2 500) = 2" by code_simp
  note t = submit_score_rank_counts_greater [OF h]
  from t have "\<forall>l \<in> set (leaderboard ?D). lb_total_score l = sr_new_total_score ?R \<longrightarrow>
      Some (count_rank ?D (lb_total_score l)) = sr_new_rank ?R"
    by blast
  from bspec [OF this m] have c: "count_rank ?D 500 = 1" by simp
  from t u have "map_option lb_rank (entry_of ?D 2) = Some (Some 1)" by simp
  with h m c show ?thesis by simp
qed

text \<open>
  Claim C9. A committed submission leaves the rows of every other player as they were,
  total and stored rank alike, in number and in order.
\<close>

theorem submit_score_other_entries_unchanged:
  assumes "fst (submit_score e p s) = Inr resp"
  shows "filter (\<lambda>l. lb_user_id l \<noteq> sub_user_id p) (leaderboard (db (snd (submit_score e p s))))
           = filter (\<lambda>l. lb_user_id l \<noteq> sub_user_id p) (leaderboard (db s))
       \<and> (q \<noteq> sub_user_id p \<longrightarrow>
            entry_of (db (snd (submit_score e p s))) q = entry_of (db s) q)"
proof -
  from submit_score_success [OF assms] obtain d3 nt nr where
    st: "submit_statements e p (db s) = Inr (d3, nt, nr)" and
    d': "db (snd (submit_score e p s)) = d3"
    by auto
  have "filter (\<lambda>l. lb_user_id l \<noteq> sub_user_id p) (leaderboard d3)
           = filter (\<lambda>l. lb_user_id l \<noteq> sub_user_id p) (leaderboard (db s))"
    using submit_statements_Inr(4) [OF st] by (simp add: filter_map_fixed)
  with submit_statements_other_entry [OF st] d' show ?thesis by simp
qed

theorem submit_score_other_entries_unchanged_witness:
  "fst (submit_score (ex_env 10) (ex_sub 2 700) ex_sys) =
     Inr \<lparr>sr_message = ''Score submitted successfully'', sr_user_id = 2,
          sr_new_total_score = 700, sr_new_rank = Some 1\<rparr>
   \<and> (1::int) \<noteq> sub_user_id (ex_sub 2 700)
   \<and> entry_of (db (snd (submit_score (ex_env 10) (ex_sub 2 700) ex_sys))) 1
       = Some \<lparr>lb_user_id = 1, lb_total_score = 500, lb_rank = Some 1\<rparr>
   \<and> filter (\<lambda>l. lb_user_id l \<noteq> 2)
         (leaderboard (db (snd (submit_score (ex_env 10) (ex_sub 2 700) ex_sys))))
       = [\<lparr>lb_user_id = 1, lb_total_score = 500, lb_rank = Some 1\<rparr>]"
proof -
  have h: "fst (submit_score (ex_env 10) (ex_sub 2 700) ex_sys) =
     Inr \<lparr>sr_message = ''Score submitted successfully'', sr_user_id = 2,
          sr_new_total_score = 700, sr_new_rank = Some 1\<rparr>"
    by code_simp
  have u: "sub_user_id (ex_sub 2 700) = 2" by code_simp
  have b: "entry_of (db ex_sys) 1 = Some \<lparr>lb_user_id = 1, lb_total_score = 500, lb_rank = Some 1\<rparr>"
    by code_simp
  have f: "filter (\<lambda>l. lb_user_id l \<noteq> 2) (leaderboard (db ex_sys))
       = [\<lparr>lb_user_id = 1, lb_total_score = 500, lb_rank = Some 1\<rparr>]"
    by code_simp
  from submit_score_other_entries_unchanged [OF h, of 1] u b f h show ?thesis by simp
qed

lemma submit_statements_no_user:
  assumes "find (\<lambda>u. u_id u = sub_user_id p) (users d) = None"
  shows "submit_statements e p d =
           (if db_fails e SelectUser then Inl OtherException
            else Inl (HTTPException 404 (''User '' @ show_int (sub_user_id p) @ '' not found'')))"
  using assms by (simp add: submit_statements_def select_user_def execute_def and_then_def)

text \<open>
  Claim C4. For a player id without a row in \<^verbatim>\<open>users\<close> the call never succeeds and
  writes nothing: the database and the cache are as before; when the lookup itself is
  answered, the result is the status 404 and the whole state is untouched.
\<close>

theorem submit_score_unknown_player:
  assumes "find (\<lambda>u. u_id u = sub_user_id p) (users (db s)) = None"
  shows "(\<not> db_fails e SelectUser \<longrightarrow>
            submit_score e p s =
              (Inl (HTTPException 404 (''User '' @ show_int (sub_user_id p) @ '' not found'')), s))
       \<and> (\<forall>resp. fst (submit_score e p s) \<noteq> Inr resp)
       \<and> db (snd (submit_score e p s)) = db s
       \<and> redis_data (snd (submit_score e p s)) = redis_data s"
  using submit_statements_no_user [OF assms, of e]
  by (simp add: submit_score_def submit_try_def and_then_def rollback_def)

theorem submit_score_unknown_player_witness:
  "find (\<lambda>u. u_id u = sub_user_id (ex_sub 3 500)) (users (db ex_sys)) = None
   \<and> \<not> db_fails (ex_env 10) SelectUser
   \<and> submit_score (ex_env 10) (ex_sub 3 500) ex_sys =
       (Inl (HTTPException 404 ''User 3 not found''), ex_sys)"
proof -
  have h: "find (\<lambda>u. u_id u = sub_user_id (ex_sub 3 500)) (users (db ex_sys)) = None"
    by code_simp
  have f: "\<not> db_fails (ex_env 10) SelectUser" by code_simp
  have m: "''User '' @ show_int (sub_user_id (ex_sub 3 500)) @ '' not found'' = ''User 3 not found''"
    by code_simp
  from submit_score_unknown_player [OF h, of "ex_env 10"] f m h show ?thesis by simp
qed

lemma submit_statements_user_exists:
  assumes "find (\<lambda>u. u_id u = sub_user_id p) (users d) = Some u"
  shows "submit_statements e p d \<noteq> Inl (HTTPException c m)"
  using assms
  by (auto simp: submit_statements_def select_user_def insert_game_session_def
      upsert_leaderboard_def select_total_def select_rank_def update_rank_def
      execute_def and_then_def Let_def split: sum.splits if_splits)

lemma submit_try_user_exists:
  assumes "find (\<lambda>u. u_id u = sub_user_id p) (users (db s)) = Some u"
  shows "submit_try e p s \<noteq> Inl (HTTPException c m)"
  using submit_statements_user_exists [OF assms, of e]
  by (auto simp: submit_try_def and_then_def commit_def execute_def Let_def
           split: sum.splits prod.splits if_splits)

lemma submit_score_failure:
  assumes "find (\<lambda>u. u_id u = sub_user_id p) (users (db s)) = Some u"
    and "fst (submit_score e p s) = Inl x"
  shows "submit_score e p s = (Inl (HTTPException 500 ''Internal server error''), rollback s)"
proof (cases "submit_try e p s")
  case (Inl y)
  show ?thesis
  proof (cases y)
    case (HTTPException c m)
    with Inl submit_try_user_exists [OF assms(1), of e c m] show ?thesis by simp
  next
    case OtherException
    with Inl show ?thesis by (simp add: submit_score_def)
  qed
next
  case (Inr r)
  with assms(2) show ?thesis by (cases r) (simp add: submit_score_def)
qed

lemma submit_score_success_needs:
  assumes "fst (submit_score e p s) = Inr resp"
  shows "\<not> db_fails e SelectUser \<and> \<not> db_fails e InsertSession \<and> \<not> db_fails e UpsertEntry \<and>
         \<not> db_fails e SelectTotal \<and> \<not> db_fails e CountRank \<and> \<not> db_fails e UpdateRank \<and>
         \<not> db_fails e Commit \<and> int4_ok (sub_score p) \<and>
         (case entry_of (db s) (sub_user_id p) of
            None \<Rightarrow> True | Some l \<Rightarrow> int4_ok (lb_total_score l + sub_score p))"
proof -
  from submit_score_success [OF assms] obtain d3 nt nr where
    st: "submit_statements e p (db s) = Inr (d3, nt, nr)" and c: "\<not> db_fails e Commit"
    by auto
  from submit_statements_steps [OF st] obtain usr d1 d2 row rr where
    a: "select_user e (db s) (sub_user_id p) = Inr (Some usr)" and
    b: "insert_game_session e (db s) p = Inr d1" and
    u: "upsert_leaderboard e d1 (sub_user_id p) (sub_score p) = Inr d2" and
    t: "select_total e d2 (sub_user_id p) = Inr row" and
    r: "select_rank e d2 nt = Inr rr" and
    w: "update_rank e d2 (sub_user_id p) nr = Inr d3"
    by blast
  from b have lb1: "leaderboard d1 = leaderboard (db s)" and ok: "int4_ok (sub_score p)"
      and f2: "\<not> db_fails e InsertSession"
    by (auto simp: insert_game_session_def execute_Inr split: if_splits)
  have ov: "int4_ok (lb_total_score l + sub_score p)"
    if "entry_of (db s) (sub_user_id p) = Some l" for l
  proof -
    from that have "l \<in> set (leaderboard d1)" "lb_user_id l = sub_user_id p"
      using lb1 by (auto simp: entry_of_def find_Some_iff in_set_conv_nth)
    with u show ?thesis
      by (auto simp: upsert_leaderboard_def execute_Inr list_ex_iff split: if_splits)
  qed
  from a u t r w have "\<not> db_fails e SelectUser" "\<not> db_fails e UpsertEntry"
      "\<not> db_fails e SelectTotal" "\<not> db_fails e CountRank" "\<not> db_fails e UpdateRank"
    by (auto simp: select_user_def upsert_leaderboard_def select_total_def select_rank_def
        update_rank_def execute_Inr)
  with c f2 ok ov show ?thesis by (auto split: option.splits)
qed

text \<open>
  Claim C5. For an existing player: a statement after the existence check that fails
  (the insert, the upsert, the reads of total and rank, the update of the rank, the
  commit, or a score or total out of range for a 32-bit column) makes the call fail;
  and every failing call answers with the status 500 and its fixed text, after a
  rollback that leaves the committed database and the cache as they were.
\<close>

theorem submit_score_failure_rolls_back:
  assumes "find (\<lambda>u. u_id u = sub_user_id p) (users (db s)) = Some u"
  shows "((db_fails e InsertSession \<or> db_fails e UpsertEntry \<or> db_fails e SelectTotal \<or>
           db_fails e CountRank \<or> db_fails e UpdateRank \<or> db_fails e Commit \<or>
           \<not> int4_ok (sub_score p) \<or>
           (case entry_of (db s) (sub_user_id p) of
              None \<Rightarrow> False | Some l \<Rightarrow> \<not> int4_ok (lb_total_score l + sub_score p)))
          \<longrightarrow> (\<exists>x. fst (submit_score e p s) = Inl x))
       \<and> (fst (submit_score e p s) = Inl x \<longrightarrow>
            submit_score e p s =
              (Inl (HTTPException 500 ''Internal server error''), rollback s))
       \<and> db (rollback s) = db s \<and> redis_data (rollback s) = redis_data s"
proof -
  have "\<exists>x. fst (submit_score e p s) = Inl x"
    if "db_fails e InsertSession \<or> db_fails e UpsertEntry \<or> db_fails e SelectTotal \<or>
           db_fails e CountRank \<or> db_fails e UpdateRank \<or> db_fails e Commit \<or>
           \<not> int4_ok (sub_score p) \<or>
           (case entry_of (db s) (sub_user_id p) of
              None \<Rightarrow> False | Some l \<Rightarrow> \<not> int4_ok (lb_total_score l + sub_score p))"
  proof (cases "fst (submit_score e p s)")
    case (Inl y)
    then show ?thesis by blast
  next
    case (Inr r)
    from submit_score_success_needs [OF Inr] that show ?thesis
      by (auto split: option.splits)
  qed
  with submit_score_failure [OF assms] show ?thesis
    by (auto simp: rollback_def)
qed

theorem submit_score_failure_rolls_back_witness:
  "find (\<lambda>u. u_id u = sub_user_id (ex_sub 2 500)) (users (db ex_sys))
     = Some \<lparr>u_id = 2, u_username = ''bob''\<rparr>
   \<and> db_fails ex_env_commit_fails Commit
   \<and> submit_score ex_env_commit_fails (ex_sub 2 500) ex_sys =
       (Inl (HTTPException 500 ''Internal server error''), rollback ex_sys)
   \<and> db (rollback ex_sys) = db ex_sys"
proof -
  have h: "find (\<lambda>u. u_id u = sub_user_id (ex_sub 2 500)) (users (db ex_sys))
     = Some \<lparr>u_id = 2, u_username = ''bob''\<rparr>"
    by code_simp
  have f: "db_fails ex_env_commit_fails Commit" by code_simp
  from submit_score_failure_rolls_back [OF h, of ex_env_commit_fails] f
  obtain x where x: "fst (submit_score ex_env_commit_fails (ex_sub 2 500) ex_sys) = Inl x"
    by blast
  from submit_score_failure_rolls_back [OF h, of ex_env_commit_fails x] x f h
  show ?thesis by simp
qed

text \<open>
  Claim C8. A submission that succeeds records the commit first and, when Redis answers,
  one delete of exactly the two keys \<^verbatim>\<open>leaderboard:top10\<close> and
  \<^verbatim>\<open>rank:<user_id>\<close> after it, every other key keeping its value; a submission
  that fails deletes nothing.
\<close>

theorem submit_score_invalidates_after_commit:
  "(fst (submit_score e p s) = Inr resp \<longrightarrow>
      trace (snd (submit_score e p s)) =
        trace s @ EvCommit #
          (if redis_reachable e then [EvCacheDelete [top10_key, rank_key (sub_user_id p)]] else [])
      \<and> redis_data (snd (submit_score e p s)) =
        (if redis_reachable e
         then (\<lambda>k. if k = top10_key \<or> k = rank_key (sub_user_id p) then None else redis_data s k)
         else redis_data s))
   \<and> (fst (submit_score e p s) = Inl x \<longrightarrow>
      redis_data (snd (submit_score e p s)) = redis_data s
      \<and> (trace (snd (submit_score e p s)) = trace s
         \<or> trace (snd (submit_score e p s)) = trace s @ [EvRollback]))"
proof -
  have a: "trace (snd (submit_score e p s)) =
        trace s @ EvCommit #
          (if redis_reachable e then [EvCacheDelete [top10_key, rank_key (sub_user_id p)]] else [])
      \<and> redis_data (snd (submit_score e p s)) =
        (if redis_reachable e
         then (\<lambda>k. if k = top10_key \<or> k = rank_key (sub_user_id p) then None else redis_data s k)
         else redis_data s)" if "fst (submit_score e p s) = Inr resp"
    using submit_score_success [OF that]
    by (auto simp: cache_invalidate_def get_redis_def)
  have b: "redis_data (snd (submit_score e p s)) = redis_data s
      \<and> (trace (snd (submit_score e p s)) = trace s
         \<or> trace (snd (submit_score e p s)) = trace s @ [EvRollback])"
    if "fst (submit_score e p s) = Inl x"
    using that
    by (auto simp: submit_score_def rollback_def split: sum.splits exn.splits prod.splits)
  from a b show ?thesis by blast
qed

theorem submit_score_invalidates_after_commit_witness:
  "fst (submit_score (ex_env 10) (ex_sub 1 700) ex_sys_warm) =
     Inr \<lparr>sr_message = ''Score submitted successfully'', sr_user_id = 1,
          sr_new_total_score = 1200, sr_new_rank = Some 1\<rparr>
   \<and> redis_reachable (ex_env 10)
   \<and> redis_data ex_sys_warm top10_key \<noteq> None
   \<and> redis_data (snd (submit_score (ex_env 10) (ex_sub 1 700) ex_sys_warm)) top10_key = None
   \<and> trace (snd (submit_score (ex_env 10) (ex_sub 1 700) ex_sys_warm)) =
       trace ex_sys_warm @ [EvCommit, EvCacheDelete [top10_key, rank_key 1]]
   \<and> fst (submit_score ex_env_commit_fails (ex_sub 1 700) ex_sys_warm) =
       Inl (HTTPException 500 ''Internal server error'')
   \<and> redis_data (snd (submit_score ex_env_commit_fails (ex_sub 1 700) ex_sys_warm)) =
       redis_data ex_sys_warm"
proof -
  have h: "fst (submit_score (ex_env 10) (ex_sub 1 700) ex_sys_warm) =
     Inr \<lparr>sr_message = ''Score submitted successfully'', sr_user_id = 1,
          sr_new_total_score = 1200, sr_new_rank = Some 1\<rparr>"
    by code_simp
  have r: "redis_reachable (ex_env 10)" by code_simp
  have w: "redis_data ex_sys_warm top10_key \<noteq> None" by code_simp
  have u: "sub_user_id (ex_sub 1 700) = 1" by code_simp
  have g: "fst (submit_score ex_env_commit_fails (ex_sub 1 700) ex_sys_warm) =
       Inl (HTTPException 500 ''Internal server error'')"
    by code_simp
  from submit_score_invalidates_after_commit [of "ex_env 10" "ex_sub 1 700" ex_sys_warm]
       submit_score_invalidates_after_commit [of ex_env_commit_fails "ex_sub 1 700" ex_sys_warm]
       h r w u g
  show ?thesis by simp
qed

section \<open>The read handlers and the cache\<close>

lemma cache_get_down: "\<not> redis_reachable e \<Longrightarrow> cache_get e k s = (None, s)"
  by (cases "redis_client s") (simp_all add: cache_get_def get_redis_def)

lemma cache_set_down: "\<not> redis_reachable e \<Longrightarrow> cache_set e k v t s = s"
  by (cases "redis_client s") (simp_all add: cache_set_def get_redis_def)

lemma cache_invalidate_down: "\<not> redis_reachable e \<Longrightarrow> cache_invalidate e ks s = s"
  by (cases "redis_client s") (simp_all add: cache_invalidate_def get_redis_def)


lemma find_append_hit: "find P xs = Some x \<Longrightarrow> find P (xs @ ys) = Some x"
  by (induction xs) (auto split: if_splits)



lemma join_find_none:
  assumes "find (\<lambda>l. lb_user_id l = uid) xs = None"
  shows "find (\<lambda>(l, u). lb_user_id l = uid)
           (concat (map (\<lambda>l. map (\<lambda>u. (l, u)) (filter (\<lambda>u. u_id u = lb_user_id l) us)) xs))
         = None"
  using assms by (auto simp: find_None_iff)

lemma get_player_rank_miss:
  assumes "fst (cache_get e (rank_key uid) s) = None"
  shows "fst (get_player_rank e uid s) =
     (case select_player_rank e (db s) uid of
        Inl ex \<Rightarrow> Inl ex
      | Inr None \<Rightarrow> Inl (HTTPException 404 (''No leaderboard entry for user '' @ show_int uid))
      | Inr (Some (r0, r1, r2, r3)) \<Rightarrow>
          Inr \<lparr>pr_user_id = r0, pr_username = r1, pr_total_score = r2, pr_rank = r3\<rparr>)"
proof -
  obtain c s1 where c: "cache_get e (rank_key uid) s = (c, s1)" by (cases "cache_get e (rank_key uid) s")
  with assms have "c = None" by simp
  moreover from c have "db s1 = db s" using db_cache_get [of e "rank_key uid" s] by simp
  ultimately show ?thesis using c
    by (simp add: get_player_rank_def Let_def split: sum.splits option.splits prod.splits)
qed





lemma submit_statements_env:
  assumes "now e' = now e" and "db_fails e' = db_fails e"
  shows "submit_statements e' p d = submit_statements e p d"
proof -
  have "select_user e' = select_user e" "insert_game_session e' = insert_game_session e"
    "upsert_leaderboard e' = upsert_leaderboard e" "select_total e' = select_total e"
    "select_rank e' = select_rank e" "update_rank e' = update_rank e"
    using assms
    by (simp_all add: fun_eq_iff select_user_def insert_game_session_def
      upsert_leaderboard_def select_total_def select_rank_def update_rank_def execute_def)
  then show ?thesis by (simp add: submit_statements_def cong: if_cong)
qed

lemma submit_score_result:
  "fst (submit_score e p s) =
     (case submit_statements e p (db s) of
        Inl (HTTPException c m) \<Rightarrow> Inl (HTTPException c m)
      | Inl OtherException \<Rightarrow> Inl (HTTPException 500 ''Internal server error'')
      | Inr (d3, nt, nr) \<Rightarrow>
          if db_fails e Commit then Inl (HTTPException 500 ''Internal server error'')
          else Inr \<lparr>sr_message = ''Score submitted successfully'', sr_user_id = sub_user_id p,
                    sr_new_total_score = nt, sr_new_rank = Some nr\<rparr>)"
  by (simp add: submit_score_def submit_try_def and_then_def commit_def execute_def Let_def
           split: sum.splits exn.splits prod.splits)

lemma submit_score_db:
  "db (snd (submit_score e p s)) =
     (case submit_statements e p (db s) of
        Inl ex \<Rightarrow> db s
      | Inr (d3, nt, nr) \<Rightarrow> if db_fails e Commit then db s else d3)"
  by (simp add: submit_score_def submit_try_def and_then_def commit_def execute_def Let_def
        rollback_def split: sum.splits exn.splits prod.splits)

lemma get_leaderboard_miss:
  assumes "fst (cache_get e top10_key s) = None"
  shows "fst (get_leaderboard e s) =
     (case select_top10 e (db s) of
        Inl ex \<Rightarrow> Inl ex
      | Inr rows \<Rightarrow> Inr \<lparr>lr_leaderboard = top_entries rows, lr_updated_at = now e\<rparr>)"
proof -
  obtain c s1 where c: "cache_get e top10_key s = (c, s1)" by (cases "cache_get e top10_key s")
  with assms have "c = None" by simp
  moreover from c have "db s1 = db s" using db_cache_get [of e top10_key s] by simp
  ultimately show ?thesis using c
    by (simp add: get_leaderboard_def Let_def split: sum.splits)
qed


lemma cache_get_empty: "redis_data s = Map.empty \<Longrightarrow> fst (cache_get e k s) = None"
  by (simp add: cache_get_def get_redis_def)

lemma get_leaderboard_down:
  assumes "\<not> redis_reachable e"
  shows "get_leaderboard e s =
     (case select_top10 e (db s) of
        Inl ex \<Rightarrow> (Inl ex, s)
      | Inr rows \<Rightarrow> (Inr \<lparr>lr_leaderboard = top_entries rows, lr_updated_at = now e\<rparr>, s))"
  using assms
  by (simp add: get_leaderboard_def cache_get_down cache_set_down Let_def split: sum.splits)

lemma get_player_rank_down:
  assumes "\<not> redis_reachable e"
  shows "get_player_rank e uid s =
     (case select_player_rank e (db s) uid of
        Inl ex \<Rightarrow> (Inl ex, s)
      | Inr None \<Rightarrow>
          (Inl (HTTPException 404 (''No leaderboard entry for user '' @ show_int uid)), s)
      | Inr (Some (r0, r1, r2, r3)) \<Rightarrow>
          (Inr \<lparr>pr_user_id = r0, pr_username = r1, pr_total_score = r2, pr_rank = r3\<rparr>, s))"
  using assms
  by (simp add: get_player_rank_def cache_get_down cache_set_down Let_def
           split: sum.splits option.splits prod.splits)

text \<open>
  Claim C7. With Redis not answering, the three cache helpers do nothing
  (\<^verbatim>\<open>cache_get\<close> gives \<^verbatim>\<open>None\<close>); \<^verbatim>\<open>submit_score\<close> answers and commits as
  it does with Redis answering; both read handlers answer with what the query on the
  committed database gives, leave the state alone, and agree with the same call made
  with Redis answering and an empty cache.
\<close>

theorem cache_unreachable_is_bypass:
  assumes "\<not> redis_reachable e"
  shows "cache_get e k s = (None, s)
       \<and> cache_set e k v t s = s
       \<and> cache_invalidate e ks s = s
       \<and> fst (submit_score e p s) = fst (submit_score (e\<lparr>redis_reachable := True\<rparr>) p s)
       \<and> db (snd (submit_score e p s)) = db (snd (submit_score (e\<lparr>redis_reachable := True\<rparr>) p s))
       \<and> redis_data (snd (submit_score e p s)) = redis_data s
       \<and> get_leaderboard e s =
           (case select_top10 e (db s) of
              Inl ex \<Rightarrow> (Inl ex, s)
            | Inr rows \<Rightarrow>
                (Inr \<lparr>lr_leaderboard = top_entries rows, lr_updated_at = now e\<rparr>, s))
       \<and> fst (get_leaderboard e s) =
           fst (get_leaderboard (e\<lparr>redis_reachable := True\<rparr>) (s\<lparr>redis_data := Map.empty\<rparr>))
       \<and> get_player_rank e uid s =
           (case select_player_rank e (db s) uid of
              Inl ex \<Rightarrow> (Inl ex, s)
            | Inr None \<Rightarrow>
                (Inl (HTTPException 404 (''No leaderboard entry for user '' @ show_int uid)), s)
            | Inr (Some (r0, r1, r2, r3)) \<Rightarrow>
                (Inr \<lparr>pr_user_id = r0, pr_username = r1, pr_total_score = r2,
                      pr_rank = r3\<rparr>, s))
       \<and> fst (get_player_rank e uid s) =
           fst (get_player_rank (e\<lparr>redis_reachable := True\<rparr>) uid (s\<lparr>redis_data := Map.empty\<rparr>))"
proof -
  let ?e = "e\<lparr>redis_reachable := True\<rparr>" and ?s = "s\<lparr>redis_data := Map.empty\<rparr>"
  have env: "submit_statements ?e p (db s) = submit_statements e p (db s)"
    by (rule submit_statements_env) simp_all
  have a: "fst (submit_score e p s) = fst (submit_score ?e p s)"
    by (simp add: submit_score_result env split: sum.splits exn.splits prod.splits)
  have b: "db (snd (submit_score e p s)) = db (snd (submit_score ?e p s))"
    by (simp add: submit_score_db env split: sum.splits prod.splits)
  have c: "redis_data (snd (submit_score e p s)) = redis_data s"
    using assms
    by (simp add: submit_score_def submit_try_def and_then_def commit_def execute_def Let_def
        rollback_def cache_invalidate_down split: sum.splits exn.splits prod.splits)
  have t: "select_top10 ?e (db ?s) = select_top10 e (db s)"
    by (simp add: select_top10_def execute_def)
  have r: "select_player_rank ?e (db ?s) uid = select_player_rank e (db s) uid"
    by (simp add: select_player_rank_def execute_def)
  have g: "fst (get_leaderboard e s) = fst (get_leaderboard ?e ?s)"
    using get_leaderboard_miss [of ?e ?s] cache_get_empty [of ?s ?e top10_key]
      get_leaderboard_down [OF assms, of s] t
    by (simp split: sum.splits)
  have q: "fst (get_player_rank e uid s) = fst (get_player_rank ?e uid ?s)"
    using get_player_rank_miss [of ?e uid ?s] cache_get_empty [of ?s ?e "rank_key uid"]
      get_player_rank_down [OF assms, of uid s] r
    by (simp split: sum.splits option.splits prod.splits)
  from a b c g q cache_get_down [OF assms] cache_set_down [OF assms] cache_invalidate_down [OF assms]
    get_leaderboard_down [OF assms] get_player_rank_down [OF assms]
  show ?thesis by simp
qed

theorem cache_unreachable_is_bypass_witness:
  "\<not> redis_reachable (ex_env_redis_down 10)
   \<and> cache_get (ex_env_redis_down 10) top10_key ex_sys_warm = (None, ex_sys_warm)
   \<and> fst (get_leaderboard (ex_env 10) ex_sys_warm) =
       Inr \<lparr>lr_leaderboard = [\<lparr>le_rank = 1, le_user_id = 1, le_username = ''ann'',
                                 le_total_score = 500\<rparr>], lr_updated_at = 9\<rparr>
   \<and> get_leaderboard (ex_env_redis_down 10) ex_sys_warm =
       (Inr \<lparr>lr_leaderboard = [\<lparr>le_rank = 1, le_user_id = 1, le_username = ''ann'',
                                  le_total_score = 500\<rparr>], lr_updated_at = 10\<rparr>, ex_sys_warm)
   \<and> get_player_rank (ex_env_redis_down 10) 1 ex_sys_warm =
       (Inr \<lparr>pr_user_id = 1, pr_username = ''ann'', pr_total_score = 500, pr_rank = 1\<rparr>,
        ex_sys_warm)
   \<and> fst (submit_score (ex_env_redis_down 10) (ex_sub 2 700) ex_sys_warm) =
       Inr \<lparr>sr_message = ''Score submitted successfully'', sr_user_id = 2,
            sr_new_total_score = 700, sr_new_rank = Some 1\<rparr>"
proof -
  have d: "\<not> redis_reachable (ex_env_redis_down 10)" by code_simp
  have t: "select_top10 (ex_env_redis_down 10) (db ex_sys_warm) = Inr [(Some 1, 1, ''ann'', 500)]"
    by code_simp
  have n: "now (ex_env_redis_down 10) = 10" by code_simp
  have e: "top_entries [(Some 1, 1, ''ann'', 500)] =
      [\<lparr>le_rank = 1, le_user_id = 1, le_username = ''ann'', le_total_score = 500\<rparr>]"
    by code_simp
  have r: "select_player_rank (ex_env_redis_down 10) (db ex_sys_warm) 1 = Inr (Some (1, ''ann'', 500, 1))"
    by code_simp
  have w: "fst (get_leaderboard (ex_env 10) ex_sys_warm) =
       Inr \<lparr>lr_leaderboard = [\<lparr>le_rank = 1, le_user_id = 1, le_username = ''ann'',
                                 le_total_score = 500\<rparr>], lr_updated_at = 9\<rparr>"
    by code_simp
  have u: "fst (submit_score ((ex_env_redis_down 10)\<lparr>redis_reachable := True\<rparr>) (ex_sub 2 700) ex_sys_warm) =
       Inr \<lparr>sr_message = ''Score submitted successfully'', sr_user_id = 2,
            sr_new_total_score = 700, sr_new_rank = Some 1\<rparr>"
    by code_simp
  from cache_unreachable_is_bypass [OF d, of top10_key ex_sys_warm _ _ _ "ex_sub 2 700" 1]
    d t n e r w u
  show ?thesis by simp
qed

section \<open>The top list\<close>

lemma top_entries_length: "length (top_entries rows) = length rows"
  by (simp add: top_entries_def)

lemma top_entries_totals:
  "map le_total_score (top_entries rows) = map (\<lambda>(rk, uid, name, tot). tot) rows"
proof -
  have "map le_total_score (top_entries rows)
      = map ((\<lambda>(rk, uid, name, tot). tot) \<circ> snd) (enumerate 0 rows)"
    by (simp add: top_entries_def split_def)
  also have "\<dots> = map (\<lambda>(rk, uid, name, tot). tot) (map snd (enumerate 0 rows))"
    by (simp only: map_map)
  finally show ?thesis by (simp only: map_snd_enumerate)
qed

lemma top_entries_positions:
  "map le_rank (top_entries rows) = map int [1..<Suc (length rows)]"
proof -
  have "map le_rank (top_entries rows) = map ((\<lambda>i. int i + 1) \<circ> fst) (enumerate 0 rows)"
    by (simp add: top_entries_def split_def)
  also have "\<dots> = map (\<lambda>i. int i + 1) (map fst (enumerate 0 rows))"
    by (simp only: map_map)
  also have "\<dots> = map (\<lambda>i. int i + 1) [0..<length rows]"
    by (simp only: map_fst_enumerate add_0)
  also have "\<dots> = map int (map Suc [0..<length rows])"
    by simp
  also have "\<dots> = map int [1..<Suc (length rows)]"
    by (simp only: map_Suc_upt One_nat_def)
  finally show ?thesis .
qed






lemma sorted_neg_desc:
  "sorted (map (\<lambda>x. - g x) xs) \<Longrightarrow> sorted_wrt (\<ge>) (map (g :: 'a \<Rightarrow> int) xs)"
  by (simp add: sorted_wrt_map)

lemma select_top10_rows:
  assumes "\<not> db_fails e SelectTop10"
  shows "select_top10 e d =
     Inr (take 10 (map (\<lambda>(l, u). (lb_rank l, lb_user_id l, u_username u, lb_total_score l))
                      (sort_key (\<lambda>(l, u). - lb_total_score l) (lb_join_users d))))"
  using assms by (simp add: select_top10_def execute_def)

lemma top10_sorted:
  "sorted_wrt (\<ge>) (map (\<lambda>(rk, uid, name, tot). tot)
     (take 10 (map (\<lambda>(l, u). (lb_rank l, lb_user_id l, u_username u, lb_total_score l))
                   (sort_key (\<lambda>(l, u). - lb_total_score l) (js :: (lb_entry \<times> user) list)))))"
proof -
  let ?k = "\<lambda>(l :: lb_entry, u :: user). - lb_total_score l"
  have "sorted (map ?k (sort_key ?k js))" by (rule sorted_sort_key)
  then have "sorted (map (\<lambda>p. - lb_total_score (fst p)) (sort_key ?k js))"
    by (simp add: split_def)
  then have "sorted_wrt (\<ge>) (map (\<lambda>p. lb_total_score (fst p)) (sort_key ?k js))"
    by (rule sorted_neg_desc)
  then have "sorted_wrt (\<ge>) (take 10 (map (\<lambda>p. lb_total_score (fst p)) (sort_key ?k js)))"
    by (rule sorted_wrt_take)
  then show ?thesis by (simp add: take_map split_def comp_def)
qed


lemma submit_score_failure_keeps_cache:
  "fst (submit_score e p s) = Inl x \<Longrightarrow> redis_data (snd (submit_score e p s)) = redis_data s"
  by (auto simp: submit_score_def rollback_def split: sum.splits exn.splits prod.splits)


lemma rank_key_not_top10 [simp]: "rank_key uid \<noteq> top10_key"
  by (simp add: rank_key_def top10_key_def)

lemma redis_data_cache_get [simp]: "redis_data (snd (cache_get e k s)) = redis_data s"
  by (simp add: cache_get_def get_redis_def split: option.splits)

lemma redis_data_cache_set:
  "redis_data (cache_set e k v t s) k' =
     (if redis_reachable e \<and> k' = k then Some (v, now e + t) else redis_data s k')"
  by (simp add: cache_set_def get_redis_def)

lemma computed_snapshot_ok:
  "snapshot_ok \<lparr>lr_leaderboard = top_entries (take 10
      (map (\<lambda>(l, u). (lb_rank l, lb_user_id l, u_username u, lb_total_score l))
           (sort_key (\<lambda>(l, u). - lb_total_score l) (js :: (lb_entry \<times> user) list)))),
      lr_updated_at = t\<rparr>"
  by (simp add: snapshot_ok_def top_entries_totals top10_sorted top_entries_positions
      top_entries_length)

lemma get_leaderboard_keeps_cache_ok:
  assumes "top10_cache_ok s"
  shows "top10_cache_ok (snd (get_leaderboard e s))"
proof -
  obtain c s1 where c: "cache_get e top10_key s = (c, s1)" by (cases "cache_get e top10_key s")
  then have d: "redis_data s1 = redis_data s" "db s1 = db s"
    using redis_data_cache_get [of e top10_key s] db_cache_get [of e top10_key s] by simp_all
  with assms have ok1: "top10_cache_ok s1" by (simp add: top10_cache_ok_def)
  show ?thesis
  proof (cases c)
    case None
    show ?thesis
    proof (cases "db_fails e SelectTop10")
      case True
      with c None ok1 show ?thesis
        by (simp add: get_leaderboard_def select_top10_def execute_def)
    next
      case False
      with c None ok1 show ?thesis
        using computed_snapshot_ok [of "lb_join_users (db s1)" "now e"]
        by (simp add: get_leaderboard_def select_top10_rows Let_def top10_cache_ok_def
            redis_data_cache_set)
    qed
  next
    case (Some v)
    with c ok1 show ?thesis by (cases v) (simp_all add: get_leaderboard_def)
  qed
qed

lemma get_player_rank_keeps_cache_ok:
  assumes "top10_cache_ok s"
  shows "top10_cache_ok (snd (get_player_rank e uid s))"
proof -
  obtain c s1 where c: "cache_get e (rank_key uid) s = (c, s1)"
    by (cases "cache_get e (rank_key uid) s")
  then have "redis_data s1 = redis_data s"
    using redis_data_cache_get [of e "rank_key uid" s] by simp
  with assms have ok1: "top10_cache_ok s1" by (simp add: top10_cache_ok_def)
  have "top10_cache_ok (cache_set e (rank_key uid) v t s1)" for v t
    using ok1 rank_key_not_top10 [of uid]
    by (simp add: top10_cache_ok_def redis_data_cache_set del: rank_key_not_top10)
  with c ok1 show ?thesis
    by (auto simp: get_player_rank_def Let_def split: option.splits cache_value.splits sum.splits)
qed

lemma submit_score_keeps_cache_ok:
  assumes "top10_cache_ok s"
  shows "top10_cache_ok (snd (submit_score e p s))"
proof (cases "fst (submit_score e p s)")
  case (Inl x)
  with submit_score_failure_keeps_cache [of e p s x] assms show ?thesis
    by (simp add: top10_cache_ok_def)
next
  case (Inr r)
  with submit_score_success [OF Inr] assms show ?thesis
    by (auto simp: top10_cache_ok_def cache_invalidate_def get_redis_def)
qed




end
